theory Spec2Isabelle
  imports Complex_Main "HOL-Library.AList" "HOL-Library.Sublist"
begin

section \<open>Python values\<close>

text \<open>
  The values that the cache stores, that a data source returns as its schema and that
  the schema store writes as JSON.  A dictionary is an association list in insertion
  order (keys are strings, as in every dictionary of the sources); \<open>PStamp t\<close> is
  a string in ISO-8601 format, written by \<^verbatim>\<open>datetime.isoformat()\<close> for the
  instant \<open>t\<close> (seconds) and read back by \<^verbatim>\<open>datetime.fromisoformat\<close>;
  \<open>PObj\<close> is any other object (a \<^verbatim>\<open>datetime\<close>, a \<^verbatim>\<open>Decimal\<close>,
  bytes), which \<^verbatim>\<open>json.dump\<close> refuses.
\<close>

datatype pyval =
    PNone
  | PBool bool
  | PInt int
  | PFloat real
  | PStr string
  | PStamp real
  | PList "pyval list"
  | PDict "(string \<times> pyval) list"
  | PObj string

datatype error =
  TypeError | AttributeError | ValueError | JSONDecodeError | OverflowError | OSError

text \<open>\<^verbatim>\<open>isinstance(v, dict) and 'ttl' in v\<close>, then \<^verbatim>\<open>v['ttl']\<close>.\<close>

fun dict_ttl :: "pyval \<Rightarrow> pyval option" where
  "dict_ttl (PDict d) = map_of d ''ttl''"
| "dict_ttl _ = None"

text \<open>
  The number a value stands for in arithmetic and comparisons (\<^verbatim>\<open>bool\<close> is a
  subclass of \<^verbatim>\<open>int\<close>); every other value raises \<^verbatim>\<open>TypeError\<close> there.
\<close>

fun num_of :: "pyval \<Rightarrow> real option" where
  "num_of (PBool b) = Some (if b then 1 else 0)"
| "num_of (PInt i) = Some (real_of_int i)"
| "num_of (PFloat r) = Some r"
| "num_of _ = None"

text \<open>\<^verbatim>\<open>x > v\<close> for a float \<open>x\<close>.\<close>

definition py_gt :: "real \<Rightarrow> pyval \<Rightarrow> error + bool" where
  "py_gt x v = (case num_of v of None \<Rightarrow> Inl TypeError | Some t \<Rightarrow> Inr (x > t))"

section \<open>The cache engine (mcp\_server/base/cache.py, class TTLCache)\<close>

text \<open>
  \<open>cache\<close> is the \<^verbatim>\<open>OrderedDict\<close> \<^verbatim>\<open>_cache\<close>: the head of the list is
  the least recently used entry.  \<open>timestamps\<close> is the dictionary
  \<^verbatim>\<open>_timestamps\<close>.  Assigning to a key of either (\<open>AList.update\<close>) replaces
  the value in place when the key is there and appends the pair otherwise.
  Every operation takes the reading of \<^verbatim>\<open>time.time()\<close> as its argument
  \<open>now\<close>; the clock is read as one instant during one operation.
\<close>

record ttl_cache =
  max_size :: int
  default_ttl :: real
  cache :: "(string \<times> pyval) list"
  timestamps :: "(string \<times> real) list"

definition new_cache :: "int \<Rightarrow> real \<Rightarrow> ttl_cache" where
  "new_cache m d = \<lparr>max_size = m, default_ttl = d, cache = [], timestamps = []\<rparr>"

text \<open>The time-to-live that governs a key: the default, unless the stored value is a
  dictionary with an entry \<^verbatim>\<open>'ttl'\<close>.\<close>

definition entry_ttl :: "ttl_cache \<Rightarrow> string \<Rightarrow> pyval" where
  "entry_ttl c key =
     (case map_of (cache c) key of
        None \<Rightarrow> PFloat (default_ttl c)
      | Some v \<Rightarrow> (case dict_ttl v of None \<Rightarrow> PFloat (default_ttl c) | Some t \<Rightarrow> t))"

definition is_expired :: "ttl_cache \<Rightarrow> real \<Rightarrow> string \<Rightarrow> error + bool" where
  "is_expired c now key =
     (case map_of (timestamps c) key of
        None \<Rightarrow> Inr True
      | Some ts \<Rightarrow> py_gt (now - ts) (entry_ttl c key))"

text \<open>The first loop of \<^verbatim>\<open>_evict_expired\<close>: it collects the expired keys, and
  raises at the first key whose time-to-live is not a number, before anything is removed.\<close>

fun expired_keys :: "ttl_cache \<Rightarrow> real \<Rightarrow> (string \<times> real) list \<Rightarrow> error + string list" where
  "expired_keys c now [] = Inr []"
| "expired_keys c now ((key, ts) # rest) =
     (case py_gt (now - ts) (entry_ttl c key) of
        Inl e \<Rightarrow> Inl e
      | Inr b \<Rightarrow>
          (case expired_keys c now rest of
             Inl e \<Rightarrow> Inl e
           | Inr ks \<Rightarrow> Inr (if b then key # ks else ks)))"

definition pop_key :: "string \<Rightarrow> ttl_cache \<Rightarrow> ttl_cache" where
  "pop_key key c =
     c\<lparr>cache := AList.delete key (cache c), timestamps := AList.delete key (timestamps c)\<rparr>"

definition evict_expired :: "ttl_cache \<Rightarrow> real \<Rightarrow> error + ttl_cache" where
  "evict_expired c now =
     (case expired_keys c now (timestamps c) of
        Inl e \<Rightarrow> Inl e
      | Inr ks \<Rightarrow> Inr (fold pop_key ks c))"

definition evict_lru :: "ttl_cache \<Rightarrow> ttl_cache" where
  "evict_lru c =
     (case cache c of
        [] \<Rightarrow> c
      | (key, v) # rest \<Rightarrow> c\<lparr>cache := rest, timestamps := AList.delete key (timestamps c)\<rparr>)"

text \<open>A miss is the value \<^verbatim>\<open>None\<close>.  A hit moves the entry to the tail.\<close>

definition TTLCache_get :: "ttl_cache \<Rightarrow> real \<Rightarrow> string \<Rightarrow> error + (pyval \<times> ttl_cache)" where
  "TTLCache_get c now key =
     (case map_of (cache c) key of
        None \<Rightarrow> Inr (PNone, c)
      | Some v \<Rightarrow>
          (case is_expired c now key of
             Inl e \<Rightarrow> Inl e
           | Inr True \<Rightarrow> Inr (PNone, c)
           | Inr False \<Rightarrow>
               Inr (v, c\<lparr>cache := AList.update key v (AList.delete key (cache c))\<rparr>)))"

text \<open>\<^verbatim>\<open>while len(self._cache) >= self.max_size: self._evict_lru()\<close>.  The loop
  does not end when the cache is empty and \<open>max_size \<le> 0\<close>: then its value is \<open>None\<close>.\<close>

partial_function (option) evict_while_full :: "ttl_cache \<Rightarrow> ttl_cache option" where
  "evict_while_full c =
     (if int (length (cache c)) \<ge> max_size c then evict_while_full (evict_lru c) else Some c)"

datatype set_outcome = Returned ttl_cache | Raised error ttl_cache

text \<open>What \<^verbatim>\<open>set\<close> stores: the value itself, or the value wrapped with its
  time-to-live when the caller gave one.\<close>

definition cache_value :: "pyval \<Rightarrow> int option \<Rightarrow> pyval" where
  "cache_value val ttl =
     (case ttl of None \<Rightarrow> val | Some t \<Rightarrow> PDict [(''value'', val), (''ttl'', PInt t)])"

text \<open>\<^verbatim>\<open>set\<close>: \<open>None\<close> when the call does not return; \<open>Raised e c\<close> when it
  raises \<open>e\<close> and leaves the engine in state \<open>c\<close>.\<close>

definition TTLCache_set ::
  "ttl_cache \<Rightarrow> real \<Rightarrow> string \<Rightarrow> pyval \<Rightarrow> int option \<Rightarrow> set_outcome option" where
  "TTLCache_set c now key val ttl =
     (let c1 = (if map_of (cache c) key \<noteq> None
                then c\<lparr>cache := AList.delete key (cache c)\<rparr> else c)
      in case evict_expired c1 now of
           Inl e \<Rightarrow> Some (Raised e c1)
         | Inr c2 \<Rightarrow>
             (case evict_while_full c2 of
                None \<Rightarrow> None
              | Some c3 \<Rightarrow>
                  Some (Returned
                    (c3\<lparr>cache := AList.update key (cache_value val ttl) (cache c3),
                        timestamps := AList.update key now (timestamps c3)\<rparr>))))"

definition TTLCache_delete :: "ttl_cache \<Rightarrow> string \<Rightarrow> bool \<times> ttl_cache" where
  "TTLCache_delete c key =
     (if map_of (cache c) key \<noteq> None then (True, pop_key key c) else (False, c))"

definition TTLCache_size :: "ttl_cache \<Rightarrow> real \<Rightarrow> error + (nat \<times> ttl_cache)" where
  "TTLCache_size c now =
     (case evict_expired c now of Inl e \<Rightarrow> Inl e | Inr c' \<Rightarrow> Inr (length (cache c'), c'))"

definition TTLCache_keys :: "ttl_cache \<Rightarrow> real \<Rightarrow> error + (string list \<times> ttl_cache)" where
  "TTLCache_keys c now =
     (case evict_expired c now of Inl e \<Rightarrow> Inl e | Inr c' \<Rightarrow> Inr (map fst (cache c'), c'))"


text \<open>A dictionary has one entry for a key: the well-formed engine states.\<close>

definition wf_cache :: "ttl_cache \<Rightarrow> bool" where
  "wf_cache c = (distinct (map fst (cache c)) \<and> distinct (map fst (timestamps c)))"

section \<open>Strings\<close>

text \<open>
  A string is the list of its code points, and a \<open>char\<close> is a code point below 256 (the
  characters of Latin-1).  On these, \<open>is_space\<close> is \<^verbatim>\<open>str.isspace\<close>: the characters
  that \<^verbatim>\<open>str.strip()\<close> removes from both ends.  \<open>upper\<close> is \<^verbatim>\<open>str.upper()\<close>;
  its result is a list of code points, since the upper case of \<open>0xB5\<close> and of \<open>0xFF\<close>
  lies beyond 255 and that of \<open>0xDF\<close> is the two letters \<open>SS\<close>.  \<open>lower\<close> is
  \<^verbatim>\<open>str.lower()\<close>, which stays below 256.  \<open>codes s\<close> is the code points of a
  literal; \<open>contains sub s\<close> is \<^verbatim>\<open>sub in s\<close>; \<^verbatim>\<open>s.startswith(p)\<close> is
  \<open>prefix p s\<close>.
\<close>

definition is_space :: "char \<Rightarrow> bool" where
  "is_space ch =
     (let n = (of_char ch :: nat) in
      (9 \<le> n \<and> n \<le> 13) \<or> (28 \<le> n \<and> n \<le> 32) \<or> n = 133 \<or> n = 160)"

definition strip :: "string \<Rightarrow> string" where
  "strip s = rev (dropWhile is_space (rev (dropWhile is_space s)))"

definition upper_char :: "char \<Rightarrow> nat list" where
  "upper_char ch =
     (let n = (of_char ch :: nat) in
      if 97 \<le> n \<and> n \<le> 122 then [n - 32]
      else if n = 181 then [924]
      else if n = 223 then [83, 83]
      else if (224 \<le> n \<and> n \<le> 246) \<or> (248 \<le> n \<and> n \<le> 254) then [n - 32]
      else if n = 255 then [376]
      else [n])"

definition lower_char :: "char \<Rightarrow> char" where
  "lower_char ch =
     (let n = (of_char ch :: nat) in
      if (65 \<le> n \<and> n \<le> 90) \<or> (192 \<le> n \<and> n \<le> 214) \<or> (216 \<le> n \<and> n \<le> 222)
      then char_of (n + 32) else ch)"

definition upper :: "string \<Rightarrow> nat list" where
  "upper s = concat (map upper_char s)"

definition lower :: "string \<Rightarrow> string" where
  "lower s = map lower_char s"

definition codes :: "string \<Rightarrow> nat list" where
  "codes s = map of_char s"

fun contains :: "'a list \<Rightarrow> 'a list \<Rightarrow> bool" where
  "contains sub [] = (sub = [])"
| "contains sub (x # xs) = (prefix sub (x # xs) \<or> contains sub xs)"

text \<open>\<^verbatim>\<open>d.get(key, default)\<close>, for the result \<open>x\<close> of the lookup.\<close>

definition get_or :: "'a \<Rightarrow> 'a option \<Rightarrow> 'a" where
  "get_or dflt x = (case x of None \<Rightarrow> dflt | Some v \<Rightarrow> v)"

section \<open>Query validation (datasources/mysql.py, datasources/rest\_api.py)\<close>

text \<open>The dictionary \<^verbatim>\<open>query_params\<close>: a field is \<open>None\<close> when the key is absent.\<close>

record query_params =
  p_query :: "string option"
  p_endpoint :: "string option"
  p_method :: "string option"
  p_limit :: "int option"

definition dangerous_keywords :: "string list" where
  "dangerous_keywords =
     [''DROP'', ''DELETE'', ''INSERT'', ''UPDATE'', ''ALTER'', ''CREATE'',
      ''TRUNCATE'', ''REPLACE'', ''LOAD_FILE'', ''INTO OUTFILE'',
      ''INTO DUMPFILE'', ''EXEC'', ''EXECUTE'', ''CALL'', ''PROCEDURE'']"

text \<open>The loop over the keywords: true when one of them is in the statement.\<close>

fun any_keyword_in :: "string list \<Rightarrow> nat list \<Rightarrow> bool" where
  "any_keyword_in [] q = False"
| "any_keyword_in (keyword # rest) q =
     (if contains (codes keyword) q then True else any_keyword_in rest q)"

text \<open>\<^verbatim>\<open>MySQLDataSource.validate_query\<close>, for a source whose \<^verbatim>\<open>max_query_limit\<close>
  is the first argument.\<close>

definition mysql_validate_query :: "int \<Rightarrow> query_params \<Rightarrow> bool" where
  "mysql_validate_query max_query_limit qp =
     (let query = upper (strip (get_or [] (p_query qp))) in
      if \<not> prefix (codes ''SELECT'') query then False
      else if any_keyword_in dangerous_keywords query then False
      else if get_or 100 (p_limit qp) > max_query_limit then False
      else True)"

text \<open>\<^verbatim>\<open>RestAPIDataSource.validate_query\<close>.\<close>

definition rest_validate_query :: "int \<Rightarrow> query_params \<Rightarrow> bool" where
  "rest_validate_query max_query_limit qp =
     (let endpoint = get_or [] (p_endpoint qp);
          method = upper (get_or ''GET'' (p_method qp)) in
      if endpoint = [] then False
      else if method \<notin> set (map codes [''GET'', ''HEAD'', ''OPTIONS'']) then False
      else if get_or 100 (p_limit qp) > max_query_limit then False
      else
        (let endpoint = (if \<not> prefix ''/'' endpoint then ''/'' @ endpoint else endpoint) in
         if contains ''..'' endpoint \<or> contains ''//'' endpoint then False else True))"

section \<open>Library functions\<close>

text \<open>
  The texts that the standard library produces and that no property below depends on:
  \<^verbatim>\<open>json.dumps(v)\<close> for a serializable \<open>v\<close>, \<^verbatim>\<open>str(hash(s))\<close>,
  \<^verbatim>\<open>str(i)\<close> for an integer and \<^verbatim>\<open>str(e)\<close> for an exception raised inside
  the schema store.  The functions below take them as a parameter.
\<close>

record pylib =
  dumps_text :: "pyval \<Rightarrow> string"
  hash_text :: "string \<Rightarrow> string"
  int_text :: "int \<Rightarrow> string"
  exc_text :: "error \<Rightarrow> string"

text \<open>What \<^verbatim>\<open>json.dump\<close> accepts: no object of a class outside JSON, at any depth.\<close>

fun json_ok :: "pyval \<Rightarrow> bool" where
  "json_ok (PObj x) = False"
| "json_ok (PList xs) = list_all json_ok xs"
| "json_ok (PDict d) = list_all (\<lambda>kv. json_ok (snd kv)) d"
| "json_ok v = True"

text \<open>Truth value of an object in a condition.\<close>

fun truthy :: "pyval \<Rightarrow> bool" where
  "truthy PNone = False"
| "truthy (PBool b) = b"
| "truthy (PInt i) = (i \<noteq> 0)"
| "truthy (PFloat r) = (r \<noteq> 0)"
| "truthy (PStr s) = (s \<noteq> [])"
| "truthy (PStamp t) = True"
| "truthy (PList xs) = (xs \<noteq> [])"
| "truthy (PDict d) = (d \<noteq> [])"
| "truthy (PObj x) = True"


section \<open>Data sources (mcp\_server/base/datasource.py)\<close>

text \<open>
  A data source is the attributes that \<^verbatim>\<open>MCPDataSource.__init__\<close> sets, and what
  its variant does behind the abstract methods: the policy \<open>validate_query\<close>, and
  the outcomes of the calls that reach the backend (\<open>Inl\<close> the text of the exception
  raised, \<open>Inr\<close> the value returned).
\<close>

record data_source =
  ds_name :: string
  config :: "(string \<times> pyval) list"
  connected :: bool
  schema_cache_ttl :: int
  query_cache_ttl :: int
  max_query_limit :: int
  validate_query :: "query_params \<Rightarrow> bool"
  query :: "query_params \<Rightarrow> string + pyval"
  connect :: bool
  ds_get_schema :: "string + pyval"

text \<open>\<^verbatim>\<open>get_schema_metadata\<close>, read at the instant \<open>now\<close>.\<close>

definition get_schema_metadata :: "data_source \<Rightarrow> real \<Rightarrow> pyval" where
  "get_schema_metadata ds now =
     PDict [(''data_source'', PStr (ds_name ds)),
            (''generated_at'', PStamp now),
            (''cache_ttl'', PInt (schema_cache_ttl ds)),
            (''max_query_limit'', PInt (max_query_limit ds)),
            (''config'', PDict (filter (\<lambda>kv. \<not> contains ''password'' (lower (fst kv)))
                                  (config ds)))]"

text \<open>The calls that an operation makes on a data source, in order.\<close>

datatype event = EvConnect | EvValidate query_params | EvQuery query_params

text \<open>\<^verbatim>\<open>MCPDataSource.health_check\<close>: the calls made, the status record, and the source
  with its connection flag as \<^verbatim>\<open>connect\<close> left it.\<close>

definition probe :: query_params where
  "probe = \<lparr>p_query = Some ''SELECT 1'', p_endpoint = None, p_method = None, p_limit = Some 1\<rparr>"

definition health_check :: "data_source \<Rightarrow> real \<Rightarrow> event list \<times> pyval \<times> data_source" where
  "health_check ds now =
     (let (evs, ds1) = (if \<not> connected ds then ([EvConnect], ds\<lparr>connected := connect ds\<rparr>)
                        else ([], ds)) in
      case query ds1 probe of
        Inr test_result \<Rightarrow>
          (evs @ [EvQuery probe],
           PDict [(''status'', PStr ''healthy''), (''data_source'', PStr (ds_name ds1)),
                  (''connected'', PBool (connected ds1)), (''timestamp'', PStamp now)],
           ds1)
      | Inl e \<Rightarrow>
          (evs @ [EvQuery probe],
           PDict [(''status'', PStr ''unhealthy''), (''data_source'', PStr (ds_name ds1)),
                  (''error'', PStr e), (''timestamp'', PStamp now)],
           ds1))"

section \<open>The schema store (mcp\_server/base/schema.py)\<close>

text \<open>
  The file system under the store.  \<open>files\<close> gives what a path holds: no file, or a
  file with the JSON text of a value, or a file whose text is cut off where
  \<^verbatim>\<open>json.dump\<close> raised, which does not parse.  \<^verbatim>\<open>json.load\<close> gives back the value
  that \<^verbatim>\<open>json.dump\<close> wrote: the values of \<open>pyval\<close> that \<^verbatim>\<open>json.dump\<close> accepts are
  the values of JSON, \<^verbatim>\<open>None\<close>, booleans, numbers, strings, lists and dictionaries with
  string keys.  \<open>readable p\<close> and \<open>writable p\<close> say whether \<^verbatim>\<open>open(p, 'r')\<close> and
  \<^verbatim>\<open>open(p, 'w')\<close> succeed; otherwise they raise \<^verbatim>\<open>OSError\<close>, as for a path in a
  directory that does not exist.
\<close>

datatype stored_file = JsonText pyval | Truncated

record filesystem =
  files :: "string \<Rightarrow> stored_file option"
  readable :: "string \<Rightarrow> bool"
  writable :: "string \<Rightarrow> bool"

definition write_file :: "filesystem \<Rightarrow> string \<Rightarrow> stored_file \<Rightarrow> filesystem" where
  "write_file fs path f = fs\<lparr>files := (files fs)(path \<mapsto> f)\<rparr>"

text \<open>\<^verbatim>\<open>os.path.join\<close> of two components (POSIX).\<close>

definition path_join :: "string \<Rightarrow> string \<Rightarrow> string" where
  "path_join a b =
     (if prefix ''/'' b then b
      else if a = [] \<or> last a = CHR ''/'' then a @ b
      else a @ ''/'' @ b)"

definition get_schema_file_path :: "string \<Rightarrow> string \<Rightarrow> string" where
  "get_schema_file_path cache_dir data_source_name =
     path_join cache_dir (data_source_name @ ''_schema.json'')"

definition get_metadata_file_path :: "string \<Rightarrow> string \<Rightarrow> string" where
  "get_metadata_file_path cache_dir data_source_name =
     path_join cache_dir (data_source_name @ ''_metadata.json'')"



text \<open>\<^verbatim>\<open>schema.get("metadata", {}).get("cache_ttl", 3600)\<close>: only a dictionary has
  \<^verbatim>\<open>get\<close>.\<close>

definition snapshot_ttl :: "pyval \<Rightarrow> error + pyval" where
  "snapshot_ttl schema =
     (case schema of
        PDict d \<Rightarrow>
          (case get_or (PDict []) (map_of d ''metadata'') of
             PDict m \<Rightarrow> Inr (get_or (PInt 3600) (map_of m ''cache_ttl''))
           | _ \<Rightarrow> Inl AttributeError)
      | _ \<Rightarrow> Inl AttributeError)"

text \<open>The sidecar that \<^verbatim>\<open>save_schema\<close> writes.\<close>

definition sidecar :: "pylib \<Rightarrow> string \<Rightarrow> real \<Rightarrow> pyval \<Rightarrow> pyval \<Rightarrow> pyval" where
  "sidecar lib data_source_name now ttl schema =
     PDict [(''data_source'', PStr data_source_name),
            (''generated_at'', PStamp now),
            (''ttl_seconds'', ttl),
            (''schema_size'', PInt (int (length (dumps_text lib schema)))),
            (''version'', PStr ''1.0'')]"

text \<open>\<^verbatim>\<open>SchemaManager.save_schema\<close> at the instant \<open>now\<close>: the file system
  afterwards, and \<open>Inl\<close> the text of the exception it raises or \<open>Inr ()\<close> when it
  returns.  Opening a file for writing empties it.\<close>

definition save_schema ::
  "pylib \<Rightarrow> string \<Rightarrow> filesystem \<Rightarrow> real \<Rightarrow> string \<Rightarrow> pyval \<Rightarrow> filesystem \<times> (string + unit)" where
  "save_schema lib cache_dir fs now data_source_name schema =
     (let schema_file = get_schema_file_path cache_dir data_source_name;
          metadata_file = get_metadata_file_path cache_dir data_source_name;
          failed = (\<lambda>e. Inl (''Failed to save schema for '' @ data_source_name @ '': ''
                              @ exc_text lib e)) in
      if \<not> writable fs schema_file then (fs, failed OSError)
      else if \<not> json_ok schema then (write_file fs schema_file Truncated, failed TypeError)
      else
        (let fs1 = write_file fs schema_file (JsonText schema) in
         case snapshot_ttl schema of
           Inl e \<Rightarrow> (fs1, failed e)
         | Inr ttl \<Rightarrow>
             if \<not> writable fs1 metadata_file then (fs1, failed OSError)
             else
               (write_file fs1 metadata_file
                  (JsonText (sidecar lib data_source_name now ttl schema)),
                Inr ())))"

section \<open>The server (mcp\_server/base/server.py)\<close>

text \<open>What a tool does: it returns a value or lets an exception through.\<close>

datatype reply = Returns pyval | Raises error

text \<open>The text \<^verbatim>\<open>json.dumps(v)\<close> that a tool returns.\<close>

definition json_reply :: "pylib \<Rightarrow> pyval \<Rightarrow> reply" where
  "json_reply lib v = Returns (PStr (dumps_text lib v))"

definition status_success :: pyval where
  "status_success = PDict [(''status'', PStr ''success'')]"

definition status_error :: "string \<Rightarrow> pyval" where
  "status_error e = PDict [(''status'', PStr ''error''), (''error'', PStr e)]"

text \<open>The loop of \<^verbatim>\<open>refresh_schema\<close> over \<^verbatim>\<open>self.data_sources.items()\<close>, with the
  directory and the dictionary \<^verbatim>\<open>results\<close> built so far; \<open>clock name\<close> is the
  instant at which the snapshot of \<open>name\<close> is saved.\<close>

fun refresh_all ::
  "pylib \<Rightarrow> string \<Rightarrow> (string \<Rightarrow> real) \<Rightarrow> (string \<times> data_source) list \<Rightarrow> filesystem \<Rightarrow>
   (string \<times> pyval) list \<Rightarrow> filesystem \<times> (string \<times> pyval) list" where
  "refresh_all lib cache_dir clock [] fs results = (fs, results)"
| "refresh_all lib cache_dir clock ((name, ds) # rest) fs results =
     (case ds_get_schema ds of
        Inl e \<Rightarrow>
          refresh_all lib cache_dir clock rest fs (AList.update name (status_error e) results)
      | Inr schema \<Rightarrow>
          (case save_schema lib cache_dir fs (clock name) name schema of
             (fs', Inl e) \<Rightarrow>
               refresh_all lib cache_dir clock rest fs' (AList.update name (status_error e) results)
           | (fs', Inr u) \<Rightarrow>
               refresh_all lib cache_dir clock rest fs' (AList.update name status_success results)))"


text \<open>The query tier of the \<^verbatim>\<open>CacheManager\<close>, the only one the server uses:
  its engine and its two counters.\<close>

record cache_manager =
  query_cache :: ttl_cache
  query_hits :: nat
  query_misses :: nat

definition CacheManager_get ::
  "cache_manager \<Rightarrow> real \<Rightarrow> string \<Rightarrow> error + (pyval \<times> cache_manager)" where
  "CacheManager_get cm now key =
     (case TTLCache_get (query_cache cm) now key of
        Inl e \<Rightarrow> Inl e
      | Inr (v, c') \<Rightarrow>
          Inr (v, if v \<noteq> PNone then cm\<lparr>query_cache := c', query_hits := query_hits cm + 1\<rparr>
                  else cm\<lparr>query_cache := c', query_misses := query_misses cm + 1\<rparr>))"

definition CacheManager_set ::
  "cache_manager \<Rightarrow> real \<Rightarrow> string \<Rightarrow> pyval \<Rightarrow> int option \<Rightarrow>
   ((error \<times> cache_manager) + cache_manager) option" where
  "CacheManager_set cm now key val ttl =
     (case TTLCache_set (query_cache cm) now key val ttl of
        None \<Rightarrow> None
      | Some (Raised e c') \<Rightarrow> Some (Inl (e, cm\<lparr>query_cache := c'\<rparr>))
      | Some (Returned c') \<Rightarrow> Some (Inr (cm\<lparr>query_cache := c'\<rparr>)))"

text \<open>The tool \<^verbatim>\<open>query_<name>\<close> that \<^verbatim>\<open>_register_data_source_tools\<close> binds to a
  source: the calls it makes on the source, and its reply with the cache manager
  afterwards, or \<open>None\<close> when it does not return.\<close>

definition query_data_source ::
  "pylib \<Rightarrow> string \<Rightarrow> data_source \<Rightarrow> cache_manager \<Rightarrow> real \<Rightarrow> string \<Rightarrow> int \<Rightarrow>
   event list \<times> (reply \<times> cache_manager) option" where
  "query_data_source lib name ds cm now q limit =
     (let qp = \<lparr>p_query = Some q, p_endpoint = None, p_method = None, p_limit = Some limit\<rparr> in
      if \<not> validate_query ds qp then
        ([EvValidate qp],
         Some (json_reply lib (PDict [(''error'', PStr ''Invalid query parameters'')]), cm))
      else
        (let cache_key = name @ '':'' @ hash_text lib q @ '':'' @ int_text lib limit in
         case CacheManager_get cm now cache_key of
           Inl e \<Rightarrow> ([EvValidate qp], Some (Raises e, cm))
         | Inr (cached_result, cm1) \<Rightarrow>
             if truthy cached_result then ([EvValidate qp], Some (Returns cached_result, cm1))
             else
               (case query ds qp of
                  Inl e \<Rightarrow>
                    ([EvValidate qp, EvQuery qp],
                     Some (json_reply lib (PDict [(''error'', PStr e)]), cm1))
                | Inr results \<Rightarrow>
                    if \<not> json_ok results then
                      ([EvValidate qp, EvQuery qp],
                       Some (json_reply lib (PDict [(''error'', PStr (exc_text lib TypeError))]),
                             cm1))
                    else
                      (let result_json = PStr (dumps_text lib results) in
                       case CacheManager_set cm1 now cache_key result_json
                              (Some (query_cache_ttl ds)) of
                         None \<Rightarrow> ([EvValidate qp, EvQuery qp], None)
                       | Some (Inl (e, cm2)) \<Rightarrow>
                           ([EvValidate qp, EvQuery qp],
                            Some (json_reply lib (PDict [(''error'', PStr (exc_text lib e))]),
                                  cm2))
                       | Some (Inr cm2) \<Rightarrow>
                           ([EvValidate qp, EvQuery qp], Some (Returns result_json, cm2))))))"

text \<open>A trace in which every call of \<^verbatim>\<open>query\<close> comes after a call of
  \<^verbatim>\<open>validate_query\<close> on the same request that answered true; \<open>seen\<close> holds the
  requests validated so far.\<close>

fun validated_first :: "(query_params \<Rightarrow> bool) \<Rightarrow> query_params list \<Rightarrow> event list \<Rightarrow> bool" where
  "validated_first ok seen [] = True"
| "validated_first ok seen (EvConnect # evs) = validated_first ok seen evs"
| "validated_first ok seen (EvValidate p # evs) = validated_first ok (p # seen) evs"
| "validated_first ok seen (EvQuery p # evs) =
     (p \<in> set seen \<and> ok p \<and> validated_first ok seen evs)"

section \<open>Properties of the cache engine\<close>


lemma evict_lru_fields [simp]:
  "max_size (evict_lru c) = max_size c" "default_ttl (evict_lru c) = default_ttl c"
  by (auto simp: evict_lru_def split: list.splits)

lemma evict_lru_length:
  "cache c \<noteq> [] \<Longrightarrow> length (cache (evict_lru c)) < length (cache c)"
  by (auto simp: evict_lru_def split: list.splits)

lemma evict_while_full_Some:
  assumes "evict_while_full c = Some c'"
  shows "int (length (cache c')) < max_size c' \<and> max_size c' = max_size c
         \<and> default_ttl c' = default_ttl c"
proof (rule evict_while_full.raw_induct
    [where P = "\<lambda>c c'. int (length (cache c')) < max_size c' \<and> max_size c' = max_size c
         \<and> default_ttl c' = default_ttl c", OF _ assms])
  fix f c c'
  assume IH: "\<And>c c'. f c = Some c' \<Longrightarrow>
      int (length (cache c')) < max_size c' \<and> max_size c' = max_size c
         \<and> default_ttl c' = default_ttl c"
    and step: "(if max_size c \<le> int (length (cache c)) then f (evict_lru c) else Some c) = Some c'"
  show "int (length (cache c')) < max_size c' \<and> max_size c' = max_size c
         \<and> default_ttl c' = default_ttl c"
  proof (cases "max_size c \<le> int (length (cache c))")
    case True
    with step have "f (evict_lru c) = Some c'" by simp
    from IH [OF this] show ?thesis by simp
  next
    case False
    with step show ?thesis by auto
  qed
qed

lemma evict_while_full_returns:
  "1 \<le> max_size c \<Longrightarrow> \<exists>c'. evict_while_full c = Some c'"
proof (induction "length (cache c)" arbitrary: c rule: less_induct)
  case less
  show ?case
  proof (cases "int (length (cache c)) \<ge> max_size c")
    case True
    with less.prems have ne: "cache c \<noteq> []" by auto
    from less.hyps [OF evict_lru_length [OF ne]] less.prems
    obtain c' where "evict_while_full (evict_lru c) = Some c'" by auto
    with True show ?thesis by (subst evict_while_full.simps) simp
  next
    case False
    then show ?thesis by (subst evict_while_full.simps) simp
  qed
qed

lemma evict_while_full_diverges:
  "max_size c \<le> 0 \<Longrightarrow> evict_while_full c = None"
proof (rule ccontr)
  assume m: "max_size c \<le> 0" and "evict_while_full c \<noteq> None"
  then obtain c' where "evict_while_full c = Some c'" by auto
  from evict_while_full_Some [OF this] m show False by simp
qed

lemma length_update_le: "length (AList.update k v al) \<le> Suc (length al)"
  by (induction al) auto

lemma length_delete_le: "length (AList.delete k al) \<le> length al"
  by (simp add: AList.delete_eq)

lemma fold_pop_key_fields [simp]:
  "max_size (fold pop_key ks c) = max_size c" "default_ttl (fold pop_key ks c) = default_ttl c"
  by (induction ks arbitrary: c) (auto simp: pop_key_def)

lemma fold_pop_key_length: "length (cache (fold pop_key ks c)) \<le> length (cache c)"
proof (induction ks arbitrary: c)
  case (Cons k ks)
  have "length (cache (fold pop_key ks (pop_key k c))) \<le> length (cache (pop_key k c))"
    by (rule Cons.IH)
  also have "\<dots> \<le> length (cache c)" by (simp add: pop_key_def length_delete_le)
  finally show ?case by simp
qed simp

lemma evict_expired_fields:
  "evict_expired c now = Inr c' \<Longrightarrow> max_size c' = max_size c \<and> default_ttl c' = default_ttl c
     \<and> length (cache c') \<le> length (cache c)"
  by (auto simp: evict_expired_def fold_pop_key_length split: sum.splits)

lemma evict_while_full_invariant:
  assumes "evict_while_full c = Some c'" and "P c" and "\<And>x. P x \<Longrightarrow> P (evict_lru x)"
  shows "P c'"
proof -
  have "P c \<longrightarrow> P c'"
  proof (rule evict_while_full.raw_induct [where P = "\<lambda>c c'. P c \<longrightarrow> P c'", OF _ assms(1)])
    fix f c c'
    assume IH: "\<And>c c'. f c = Some c' \<Longrightarrow> P c \<longrightarrow> P c'"
      and step: "(if max_size c \<le> int (length (cache c)) then f (evict_lru c) else Some c) = Some c'"
    show "P c \<longrightarrow> P c'"
    proof (cases "max_size c \<le> int (length (cache c))")
      case True
      with step have "f (evict_lru c) = Some c'" by simp
      from IH [OF this] assms(3) show ?thesis by blast
    next
      case False
      with step show ?thesis by auto
    qed
  qed
  with assms(2) show ?thesis by simp
qed

lemma wf_evict_lru: "wf_cache c \<Longrightarrow> wf_cache (evict_lru c)"
  by (auto simp: wf_cache_def evict_lru_def distinct_delete split: list.splits)

lemma wf_pop_key: "wf_cache c \<Longrightarrow> wf_cache (pop_key k c)"
  by (simp add: wf_cache_def pop_key_def distinct_delete)

lemma wf_fold_pop_key: "wf_cache c \<Longrightarrow> wf_cache (fold pop_key ks c)"
  by (induction ks arbitrary: c) (simp_all add: wf_pop_key)

lemma wf_evict_expired: "wf_cache c \<Longrightarrow> evict_expired c now = Inr c' \<Longrightarrow> wf_cache c'"
  by (auto simp: evict_expired_def wf_fold_pop_key split: sum.splits)

lemma set_Returned_cases:
  assumes "TTLCache_set c now key val ttl = Some (Returned c')"
  obtains c1 c2 c3 where
    "c1 = (if map_of (cache c) key \<noteq> None then c\<lparr>cache := AList.delete key (cache c)\<rparr> else c)"
    "evict_expired c1 now = Inr c2" "evict_while_full c2 = Some c3"
    "c' = c3\<lparr>cache := AList.update key (cache_value val ttl) (cache c3),
              timestamps := AList.update key now (timestamps c3)\<rparr>"
  using assms unfolding TTLCache_set_def Let_def
  by (auto split: sum.splits option.splits)

lemma wf_set:
  assumes "wf_cache c" "TTLCache_set c now key val ttl = Some (Returned c')"
  shows "wf_cache c'"
proof -
  from assms(2) obtain c1 c2 c3 where
    c1: "c1 = (if map_of (cache c) key \<noteq> None then c\<lparr>cache := AList.delete key (cache c)\<rparr> else c)"
    and e: "evict_expired c1 now = Inr c2" and w: "evict_while_full c2 = Some c3"
    and c': "c' = c3\<lparr>cache := AList.update key (cache_value val ttl) (cache c3),
              timestamps := AList.update key now (timestamps c3)\<rparr>"
    by (rule set_Returned_cases)
  from assms(1) have "wf_cache c1" by (simp add: c1 wf_cache_def distinct_delete)
  from wf_evict_expired [OF this e] have "wf_cache c2" .
  from evict_while_full_invariant [OF w this wf_evict_lru] have "wf_cache c3" .
  then show ?thesis by (simp add: c' wf_cache_def distinct_update)
qed

lemma set_Returned_entry:
  assumes "TTLCache_set c now key val ttl = Some (Returned c')"
  shows "map_of (cache c') key = Some (cache_value val ttl)"
    and "map_of (timestamps c') key = Some now"
    and "default_ttl c' = default_ttl c"
proof -
  from assms obtain c1 c2 c3 where
    c1: "c1 = (if map_of (cache c) key \<noteq> None then c\<lparr>cache := AList.delete key (cache c)\<rparr> else c)"
    and e: "evict_expired c1 now = Inr c2" and w: "evict_while_full c2 = Some c3"
    and c': "c' = c3\<lparr>cache := AList.update key (cache_value val ttl) (cache c3),
              timestamps := AList.update key now (timestamps c3)\<rparr>"
    by (rule set_Returned_cases)
  show "map_of (cache c') key = Some (cache_value val ttl)" by (simp add: c' update_conv')
  show "map_of (timestamps c') key = Some now" by (simp add: c' update_conv')
  have "default_ttl c1 = default_ttl c" by (simp add: c1)
  with evict_expired_fields [OF e] evict_while_full_Some [OF w]
  show "default_ttl c' = default_ttl c" by (simp add: c')
qed

lemma expired_keys_set:
  "expired_keys c now ts = Inr ks \<Longrightarrow>
     k \<in> set ks \<longleftrightarrow> (\<exists>t. (k, t) \<in> set ts \<and> py_gt (now - t) (entry_ttl c k) = Inr True)"
proof (induction ts arbitrary: ks)
  case Nil
  then show ?case by simp
next
  case (Cons p ts)
  obtain k' t' where p: "p = (k', t')" by (cases p)
  from Cons.prems p obtain b ks' where
    b: "py_gt (now - t') (entry_ttl c k') = Inr b" and r: "expired_keys c now ts = Inr ks'"
    and ks: "ks = (if b then k' # ks' else ks')"
    by (auto split: sum.splits)
  from Cons.IH [OF r] show ?case using b ks p by auto
qed

lemma fold_pop_key_cache:
  "cache (fold pop_key ks c) = filter (\<lambda>p. fst p \<notin> set ks) (cache c)"
proof (induction ks arbitrary: c)
  case Nil
  then show ?case by simp
next
  case (Cons k ks)
  have "cache (pop_key k c) = filter (\<lambda>p. fst p \<noteq> k) (cache c)"
    by (auto simp: pop_key_def AList.delete_eq case_prod_unfold intro!: filter_cong)
  with Cons.IH [of "pop_key k c"] show ?case by (auto intro: filter_cong)
qed


lemma map_of_filter_keys:
  "k \<notin> S \<Longrightarrow> map_of (filter (\<lambda>p. fst p \<notin> S) xs) k = map_of xs k"
  by (induction xs) auto

lemma expired_keys_no_raise:
  "expired_keys c now ts = Inr ks \<Longrightarrow> (k, t) \<in> set ts \<Longrightarrow>
     \<exists>b. py_gt (now - t) (entry_ttl c k) = Inr b"
proof (induction ts arbitrary: ks)
  case Nil
  then show ?case by simp
next
  case (Cons p ts)
  obtain k' t' where p: "p = (k', t')" by (cases p)
  from Cons.prems(1) p obtain b ks' where
    b: "py_gt (now - t') (entry_ttl c k') = Inr b" and r: "expired_keys c now ts = Inr ks'"
    by (auto split: sum.splits)
  from Cons.prems(2) p have "(k, t) = (k', t') \<or> (k, t) \<in> set ts" by auto
  then show ?case
  proof
    assume "(k, t) = (k', t')"
    with b show ?thesis by auto
  next
    assume "(k, t) \<in> set ts"
    from Cons.IH [OF r this] show ?thesis .
  qed
qed

lemma sweep_membership:
  assumes d: "distinct (map fst (timestamps c))"
    and ts: "map_of (timestamps c) key = Some t0"
    and e: "evict_expired c now = Inr c'"
  shows "\<exists>b. py_gt (now - t0) (entry_ttl c key) = Inr b \<and>
             map_of (cache c') key = (if b then None else map_of (cache c) key)"
proof -
  from e obtain ks where ks: "expired_keys c now (timestamps c) = Inr ks"
    and c': "c' = fold pop_key ks c"
    by (auto simp: evict_expired_def split: sum.splits)
  from ts have in_ts: "(key, t0) \<in> set (timestamps c)" by (rule map_of_SomeD)
  from d ts have mem: "(key, t) \<in> set (timestamps c) \<longleftrightarrow> t = t0" for t
    by (metis map_of_eq_Some_iff option.inject)
  from expired_keys_no_raise [OF ks in_ts]
  obtain b where b: "py_gt (now - t0) (entry_ttl c key) = Inr b" ..
  from expired_keys_set [OF ks, of key] mem b have kin: "key \<in> set ks \<longleftrightarrow> b" by auto
  have "map_of (cache c') key = (if b then None else map_of (cache c) key)"
  proof (cases b)
    case True
    with kin have "key \<notin> fst ` set (cache c')" by (auto simp: c' fold_pop_key_cache)
    then have "map_of (cache c') key = None" by (simp add: map_of_eq_None_iff)
    with True show ?thesis by simp
  next
    case False
    with kin have "key \<notin> set ks" by simp
    then have "map_of (cache c') key = map_of (cache c) key"
      unfolding c' fold_pop_key_cache by (rule map_of_filter_keys)
    with False show ?thesis by simp
  qed
  with b show ?thesis by blast
qed


lemma set_fresh_eval:
  "evict_expired c1 now = Inr c2 \<Longrightarrow> int (length (cache c2)) < max_size c2 \<Longrightarrow>
   c1 = (if map_of (cache c) key \<noteq> None then c\<lparr>cache := AList.delete key (cache c)\<rparr> else c) \<Longrightarrow>
   TTLCache_set c now key val ttl = Some (Returned
      (c2\<lparr>cache := AList.update key (cache_value val ttl) (cache c2),
          timestamps := AList.update key now (timestamps c2)\<rparr>))"
  unfolding TTLCache_set_def Let_def
  by (subst evict_while_full.simps) simp

text \<open>
  Claim C5.  A fresh engine with \<open>max_size = 2\<close> and default time-to-live \<open>d\<close>, three
  distinct keys, and five clock readings in order that lie within \<open>d\<close> of the first, so
  that nothing expires: after \<open>set(a, 1)\<close>, \<open>set(b, 2)\<close>, \<open>get(a)\<close>, \<open>set(k, 3)\<close> the
  lookup of \<open>b\<close> is a miss, and the lookups of \<open>a\<close> and \<open>k\<close> return 1 and 3.  The hit
  on \<open>a\<close> made \<open>b\<close> the least recently used entry, and the third \<open>set\<close> evicted it.
\<close>

theorem lru_order:
  assumes keys: "a \<noteq> b" "a \<noteq> k" "b \<noteq> k"
    and times: "t1 \<le> t2" "t2 \<le> t3" "t3 \<le> t4" "t4 \<le> t5"
    and fresh: "t5 - t1 \<le> d"
  shows "\<exists>c1 c2 c3 c4 c5 c6.
      TTLCache_set (new_cache 2 d) t1 a (PInt 1) None = Some (Returned c1) \<and>
      TTLCache_set c1 t2 b (PInt 2) None = Some (Returned c2) \<and>
      TTLCache_get c2 t3 a = Inr (PInt 1, c3) \<and>
      TTLCache_set c3 t4 k (PInt 3) None = Some (Returned c4) \<and>
      TTLCache_get c4 t5 b = Inr (PNone, c4) \<and>
      TTLCache_get c4 t5 a = Inr (PInt 1, c5) \<and>
      TTLCache_get c5 t5 k = Inr (PInt 3, c6) \<and>
      map fst (cache c4) = [a, k]"
proof -
  let ?c1 = "\<lparr>max_size = 2, default_ttl = d, cache = [(a, PInt 1)], timestamps = [(a, t1)]\<rparr>"
  let ?c2 = "\<lparr>max_size = 2, default_ttl = d, cache = [(a, PInt 1), (b, PInt 2)],
              timestamps = [(a, t1), (b, t2)]\<rparr>"
  let ?c3 = "\<lparr>max_size = 2, default_ttl = d, cache = [(b, PInt 2), (a, PInt 1)],
              timestamps = [(a, t1), (b, t2)]\<rparr>"
  let ?c4 = "\<lparr>max_size = 2, default_ttl = d, cache = [(a, PInt 1), (k, PInt 3)],
              timestamps = [(a, t1), (k, t4)]\<rparr>"
  let ?c5 = "\<lparr>max_size = 2, default_ttl = d, cache = [(k, PInt 3), (a, PInt 1)],
              timestamps = [(a, t1), (k, t4)]\<rparr>"
  let ?c6 = "\<lparr>max_size = 2, default_ttl = d, cache = [(a, PInt 1), (k, PInt 3)],
              timestamps = [(a, t1), (k, t4)]\<rparr>"
  have s1: "TTLCache_set (new_cache 2 d) t1 a (PInt 1) None = Some (Returned ?c1)"
    by (subst set_fresh_eval [where ?c2.0 = "new_cache 2 d" and ?c1.0 = "new_cache 2 d"])
       (simp_all add: new_cache_def evict_expired_def cache_value_def)
  have s2: "TTLCache_set ?c1 t2 b (PInt 2) None = Some (Returned ?c2)"
    using keys times fresh
    by (subst set_fresh_eval [where ?c2.0 = "?c1" and ?c1.0 = "?c1"])
       (simp_all add: evict_expired_def cache_value_def py_gt_def entry_ttl_def)
  have g3: "TTLCache_get ?c2 t3 a = Inr (PInt 1, ?c3)"
    using keys times fresh
    by (simp add: TTLCache_get_def is_expired_def py_gt_def entry_ttl_def)
  have w4: "evict_while_full ?c3 = Some (\<lparr>max_size = 2, default_ttl = d, cache = [(a, PInt 1)],
              timestamps = [(a, t1)]\<rparr>)"
    using keys
    by (subst evict_while_full.simps, simp add: evict_lru_def, subst evict_while_full.simps, simp)
  have s4: "TTLCache_set ?c3 t4 k (PInt 3) None = Some (Returned ?c4)"
    using keys times fresh
    by (simp add: TTLCache_set_def evict_expired_def py_gt_def entry_ttl_def w4 cache_value_def)
  have g5: "TTLCache_get ?c4 t5 b = Inr (PNone, ?c4)"
    using keys by (simp add: TTLCache_get_def)
  have g6: "TTLCache_get ?c4 t5 a = Inr (PInt 1, ?c5)"
    using keys times fresh
    by (simp add: TTLCache_get_def is_expired_def py_gt_def entry_ttl_def)
  have g7: "TTLCache_get ?c5 t5 k = Inr (PInt 3, ?c6)"
    using keys times fresh
    by (simp add: TTLCache_get_def is_expired_def py_gt_def entry_ttl_def)
  show ?thesis
    apply (rule exI [of _ ?c1], rule exI [of _ ?c2], rule exI [of _ ?c3])
    apply (rule exI [of _ ?c4], rule exI [of _ ?c5], rule exI [of _ ?c6])
    apply (simp only: s1 s2 g3 s4 g5 g6 g7)
    apply simp
    done
qed


theorem lru_order_witness:
  "\<exists>c1 c2 c3 c4 c5 c6.
      TTLCache_set (new_cache 2 300) 0 ''a'' (PInt 1) None = Some (Returned c1) \<and>
      TTLCache_set c1 1 ''b'' (PInt 2) None = Some (Returned c2) \<and>
      TTLCache_get c2 2 ''a'' = Inr (PInt 1, c3) \<and>
      TTLCache_set c3 3 ''c'' (PInt 3) None = Some (Returned c4) \<and>
      TTLCache_get c4 4 ''b'' = Inr (PNone, c4) \<and>
      TTLCache_get c4 4 ''a'' = Inr (PInt 1, c5) \<and>
      TTLCache_get c5 4 ''c'' = Inr (PInt 3, c6) \<and>
      map fst (cache c4) = [''a'', ''c'']"
  using lru_order [of "''a''" "''b''" "''c''" 0 1 2 3 4 300] by simp

text \<open>
  Claim C3.  When a \<open>set\<close> returns, the engine holds at most \<open>max_size\<close> entries, and
  \<open>size()\<close> called at any later instant returns at most \<open>max_size\<close>; this is so from
  every state of the engine, hence after each call of any sequence of calls.  With
  \<open>max_size \<ge> 1\<close> the call ends (it returns, or raises \<^verbatim>\<open>TypeError\<close> from the
  sweep); with \<open>max_size \<le> 0\<close> it never returns.
\<close>

theorem set_capacity:
  "(TTLCache_set c now key val ttl = Some (Returned c') \<longrightarrow>
      max_size c' = max_size c \<and> int (length (cache c')) \<le> max_size c \<and>
      (\<forall>later n c''. TTLCache_size c' later = Inr (n, c'') \<longrightarrow> int n \<le> max_size c))
   \<and> (1 \<le> max_size c \<longrightarrow> (\<exists>out. TTLCache_set c now key val ttl = Some out))
   \<and> (max_size c \<le> 0 \<longrightarrow> (\<forall>c'. TTLCache_set c now key val ttl \<noteq> Some (Returned c')))"
proof (intro conjI impI allI)
  assume r: "TTLCache_set c now key val ttl = Some (Returned c')"
  define c1 where "c1 = (if map_of (cache c) key \<noteq> None
                then c\<lparr>cache := AList.delete key (cache c)\<rparr> else c)"
  have m1: "max_size c1 = max_size c" by (simp add: c1_def)
  from r obtain c2 c3 where e: "evict_expired c1 now = Inr c2"
    and w: "evict_while_full c2 = Some c3"
    and c': "c' = c3\<lparr>cache := AList.update key (cache_value val ttl)
                 (cache c3), timestamps := AList.update key now (timestamps c3)\<rparr>"
    unfolding TTLCache_set_def c1_def [symmetric] Let_def
    by (auto split: sum.splits option.splits)
  from evict_expired_fields [OF e] m1 have m2: "max_size c2 = max_size c" by simp
  from evict_while_full_Some [OF w] m2
  have m3: "max_size c3 = max_size c" and l3: "int (length (cache c3)) < max_size c" by simp_all
  show "max_size c' = max_size c" using m3 by (simp add: c')
  have "length (cache c') \<le> Suc (length (cache c3))" by (simp add: c' length_update_le)
  with l3 show len: "int (length (cache c')) \<le> max_size c" by linarith
  fix later n c''
  assume "TTLCache_size c' later = Inr (n, c'')"
  then have "evict_expired c' later = Inr c''" and n: "n = length (cache c'')"
    by (auto simp: TTLCache_size_def split: sum.splits)
  from evict_expired_fields [OF this(1)] n len show "int n \<le> max_size c" by linarith
next
  assume m: "1 \<le> max_size c"
  define c1 where "c1 = (if map_of (cache c) key \<noteq> None
                then c\<lparr>cache := AList.delete key (cache c)\<rparr> else c)"
  have m1: "max_size c1 = max_size c" by (simp add: c1_def)
  show "\<exists>out. TTLCache_set c now key val ttl = Some out"
  proof (cases "evict_expired c1 now")
    case (Inl e)
    then show ?thesis unfolding TTLCache_set_def c1_def [symmetric] Let_def by simp
  next
    case (Inr c2)
    from evict_expired_fields [OF Inr] m1 m have "1 \<le> max_size c2" by simp
    from evict_while_full_returns [OF this] obtain c3 where "evict_while_full c2 = Some c3" ..
    with Inr show ?thesis unfolding TTLCache_set_def c1_def [symmetric] Let_def by simp
  qed
next
  fix c'
  assume m: "max_size c \<le> 0"
  define c1 where "c1 = (if map_of (cache c) key \<noteq> None
                then c\<lparr>cache := AList.delete key (cache c)\<rparr> else c)"
  have m1: "max_size c1 = max_size c" by (simp add: c1_def)
  show "TTLCache_set c now key val ttl \<noteq> Some (Returned c')"
  proof (cases "evict_expired c1 now")
    case (Inl e)
    then show ?thesis unfolding TTLCache_set_def c1_def [symmetric] Let_def by simp
  next
    case (Inr c2)
    from evict_expired_fields [OF Inr] m1 m have "max_size c2 \<le> 0" by simp
    from evict_while_full_diverges [OF this]
    show ?thesis using Inr unfolding TTLCache_set_def c1_def [symmetric] Let_def by simp
  qed
qed

theorem set_capacity_witness:
  "\<exists>c1 c2. TTLCache_set (new_cache 1 300) 0 ''a'' (PInt 1) None = Some (Returned c1)
     \<and> TTLCache_set c1 1 ''b'' (PInt 2) None = Some (Returned c2)
     \<and> max_size c2 = 1 \<and> int (length (cache c2)) \<le> 1
     \<and> map fst (cache c2) = [''b'']"
proof -
  let ?c1 = "\<lparr>max_size = 1, default_ttl = 300, cache = [(''a'', PInt 1)],
               timestamps = [(''a'', 0)]\<rparr>"
  let ?c2 = "\<lparr>max_size = 1, default_ttl = 300, cache = [(''b'', PInt 2)],
               timestamps = [(''b'', 1)]\<rparr>"
  have s1: "TTLCache_set (new_cache 1 300) 0 ''a'' (PInt 1) None = Some (Returned ?c1)"
    by (subst set_fresh_eval [where ?c2.0 = "new_cache 1 300" and ?c1.0 = "new_cache 1 300"])
       (simp_all add: new_cache_def evict_expired_def cache_value_def)
  have w: "evict_while_full ?c1 = Some (\<lparr>max_size = 1, default_ttl = 300, cache = [],
               timestamps = []\<rparr>)"
    by (subst evict_while_full.simps, simp add: evict_lru_def, subst evict_while_full.simps, simp)
  have s2: "TTLCache_set ?c1 1 ''b'' (PInt 2) None = Some (Returned ?c2)"
    by (simp add: TTLCache_set_def evict_expired_def py_gt_def entry_ttl_def w cache_value_def)
  from set_capacity [of ?c1 1 "''b''" "PInt 2" None ?c2] s2
  have cap: "max_size ?c2 = max_size ?c1 \<and> int (length (cache ?c2)) \<le> max_size ?c1"
    by blast
  show ?thesis
    apply (rule exI [of _ ?c1], rule exI [of _ ?c2])
    apply (simp only: s1 s2)
    using cap apply simp
    done
qed

text \<open>
  Claim C9.  \<open>get\<close> on a key that is absent or expired returns \<^verbatim>\<open>None\<close> and leaves
  the engine as it was: an expired entry is still in the underlying map, with its value,
  and the map has as many entries as before.
\<close>

theorem expired_get_is_pure_miss:
  "(map_of (cache c) key = None \<longrightarrow> TTLCache_get c now key = Inr (PNone, c))
   \<and> (is_expired c now key = Inr True \<longrightarrow> TTLCache_get c now key = Inr (PNone, c))
   \<and> (map_of (cache c) key = Some v \<and> is_expired c now key = Inr True \<longrightarrow>
        (\<exists>c'. TTLCache_get c now key = Inr (PNone, c') \<and> c' = c
              \<and> map_of (cache c') key = Some v \<and> length (cache c') = length (cache c)))"
  by (auto simp: TTLCache_get_def split: option.splits)

theorem expired_get_is_pure_miss_witness:
  "map_of (cache \<lparr>max_size = 5, default_ttl = 10, cache = [(''k'', PInt 7)],
                   timestamps = [(''k'', 0)]\<rparr>) ''k'' = Some (PInt 7)
   \<and> is_expired \<lparr>max_size = 5, default_ttl = 10, cache = [(''k'', PInt 7)],
                   timestamps = [(''k'', 0)]\<rparr> 11 ''k'' = Inr True
   \<and> TTLCache_get \<lparr>max_size = 5, default_ttl = 10, cache = [(''k'', PInt 7)],
                   timestamps = [(''k'', 0)]\<rparr> 11 ''k''
       = Inr (PNone, \<lparr>max_size = 5, default_ttl = 10, cache = [(''k'', PInt 7)],
                   timestamps = [(''k'', 0)]\<rparr>)"
proof -
  let ?c = "\<lparr>max_size = 5, default_ttl = 10, cache = [(''k'', PInt 7)],
                   timestamps = [(''k'', 0::real)]\<rparr>"
  have e: "is_expired ?c 11 ''k'' = Inr True"
    by (simp add: is_expired_def py_gt_def entry_ttl_def)
  have m: "map_of (cache ?c) ''k'' = Some (PInt 7)" by simp
  from expired_get_is_pure_miss [of ?c "''k''" 11 "PInt 7"] e
  have "TTLCache_get ?c 11 ''k'' = Inr (PNone, ?c)" by blast
  with e m show ?thesis by simp
qed

text \<open>
  Claim C10.  After \<open>set(key, v)\<close> with no time-to-live, where \<open>v\<close> is a dictionary
  with an entry \<^verbatim>\<open>'ttl'\<close> of value \<open>tv\<close>, the expiry of the entry is decided by
  comparing its age with \<open>tv\<close>, in \<open>_is_expired\<close>, in \<open>get\<close> and in the sweep that
  \<open>set\<close>, \<open>size\<close> and \<open>keys\<close> run; the engine's \<open>default_ttl\<close> plays no part.
\<close>

theorem value_ttl_field_governs_expiry:
  assumes wf: "wf_cache c"
    and tv: "map_of d ''ttl'' = Some tv"
    and s: "TTLCache_set c now key (PDict d) None = Some (Returned c')"
  shows "is_expired c' later key = py_gt (later - now) tv
    \<and> TTLCache_get c' later key =
        (case py_gt (later - now) tv of
           Inl e \<Rightarrow> Inl e
         | Inr True \<Rightarrow> Inr (PNone, c')
         | Inr False \<Rightarrow>
             Inr (PDict d, c'\<lparr>cache := AList.update key (PDict d) (AList.delete key (cache c'))\<rparr>))
    \<and> (\<forall>c''. evict_expired c' later = Inr c'' \<longrightarrow>
          (\<exists>b. py_gt (later - now) tv = Inr b \<and> (map_of (cache c'') key = None) = b))
    \<and> (\<forall>n c''. TTLCache_size c' later = Inr (n, c'') \<longrightarrow>
          (\<exists>b. py_gt (later - now) tv = Inr b \<and> (map_of (cache c'') key = None) = b))
    \<and> (\<forall>ks c''. TTLCache_keys c' later = Inr (ks, c'') \<longrightarrow>
          (\<exists>b. py_gt (later - now) tv = Inr b \<and> (key \<notin> set ks) = b))"
proof -
  from set_Returned_entry [OF s]
  have cv: "map_of (cache c') key = Some (PDict d)"
    and ts: "map_of (timestamps c') key = Some now"
    by (simp_all add: cache_value_def)
  from cv tv have ttl: "entry_ttl c' key = tv" by (simp add: entry_ttl_def)
  have ex: "is_expired c' later key = py_gt (later - now) tv"
    by (simp add: is_expired_def ts ttl)
  have gt: "TTLCache_get c' later key =
        (case py_gt (later - now) tv of
           Inl e \<Rightarrow> Inl e
         | Inr True \<Rightarrow> Inr (PNone, c')
         | Inr False \<Rightarrow>
             Inr (PDict d, c'\<lparr>cache := AList.update key (PDict d) (AList.delete key (cache c'))\<rparr>))"
    by (simp add: TTLCache_get_def cv ex)
  from wf_set [OF wf s] have d': "distinct (map fst (timestamps c'))" by (simp add: wf_cache_def)
  have sw: "\<exists>b. py_gt (later - now) tv = Inr b \<and> (map_of (cache c'') key = None) = b"
    if "evict_expired c' later = Inr c''" for c''
    using sweep_membership [OF d' ts that] cv ttl by auto
  have sz: "\<exists>b. py_gt (later - now) tv = Inr b \<and> (map_of (cache c'') key = None) = b"
    if "TTLCache_size c' later = Inr (n, c'')" for n c''
  proof -
    from that have "evict_expired c' later = Inr c''"
      by (auto simp: TTLCache_size_def split: sum.splits)
    then show ?thesis by (rule sw)
  qed
  have ky: "\<exists>b. py_gt (later - now) tv = Inr b \<and> (key \<notin> set ks) = b"
    if "TTLCache_keys c' later = Inr (ks, c'')" for ks c''
  proof -
    from that have e: "evict_expired c' later = Inr c''" and ks: "ks = map fst (cache c'')"
      by (auto simp: TTLCache_keys_def split: sum.splits)
    from sw [OF e] show ?thesis by (simp add: ks map_of_eq_None_iff)
  qed
  from ex gt sw sz ky show ?thesis by blast
qed

theorem value_ttl_field_governs_expiry_witness:
  "\<exists>c'. wf_cache (new_cache 10 300)
     \<and> TTLCache_set (new_cache 10 300) 0 ''k'' (PDict [(''ttl'', PInt 5)]) None = Some (Returned c')
     \<and> is_expired c' 6 ''k'' = Inr True
     \<and> TTLCache_get c' 6 ''k'' = Inr (PNone, c')"
proof -
  let ?c' = "\<lparr>max_size = 10, default_ttl = 300, cache = [(''k'', PDict [(''ttl'', PInt 5)])],
               timestamps = [(''k'', 0)]\<rparr>"
  have wf: "wf_cache (new_cache 10 300)" by (simp add: wf_cache_def new_cache_def)
  have tv: "map_of [(''ttl'', PInt 5)] ''ttl'' = Some (PInt 5)" by simp
  have s: "TTLCache_set (new_cache 10 300) 0 ''k'' (PDict [(''ttl'', PInt 5)]) None
             = Some (Returned ?c')"
    by (subst set_fresh_eval [where ?c2.0 = "new_cache 10 300" and ?c1.0 = "new_cache 10 300"])
       (simp_all add: new_cache_def evict_expired_def cache_value_def)
  from value_ttl_field_governs_expiry [OF wf tv s, of 6]
  have "is_expired ?c' 6 ''k'' = Inr True \<and> TTLCache_get ?c' 6 ''k'' = Inr (PNone, ?c')"
    by (simp add: py_gt_def)
  with wf s show ?thesis by blast
qed

text \<open>
  Claim C4, at the input \<open>set("k", 1, ttl=5)\<close> on a fresh engine, then \<open>get("k")\<close> one
  time unit later: \<open>get\<close> returns the dictionary that wraps the value with its
  time-to-live, which is not the value stored.
\<close>

theorem get_returns_ttl_wrapper:
  "\<exists>c' c''. TTLCache_set (new_cache 1000 300) 0 ''k'' (PInt 1) (Some 5) = Some (Returned c')
     \<and> TTLCache_get c' 1 ''k'' = Inr (PDict [(''value'', PInt 1), (''ttl'', PInt 5)], c'')
     \<and> PDict [(''value'', PInt 1), (''ttl'', PInt 5)] \<noteq> PInt 1"
proof -
  let ?c' = "\<lparr>max_size = 1000, default_ttl = 300,
               cache = [(''k'', PDict [(''value'', PInt 1), (''ttl'', PInt 5)])],
               timestamps = [(''k'', 0)]\<rparr>"
  have s: "TTLCache_set (new_cache 1000 300) 0 ''k'' (PInt 1) (Some 5) = Some (Returned ?c')"
    by (subst set_fresh_eval [where ?c2.0 = "new_cache 1000 300" and ?c1.0 = "new_cache 1000 300"])
       (simp_all add: new_cache_def evict_expired_def cache_value_def)
  have g: "TTLCache_get ?c' 1 ''k'' = Inr (PDict [(''value'', PInt 1), (''ttl'', PInt 5)], ?c')"
    by (simp add: TTLCache_get_def is_expired_def py_gt_def entry_ttl_def)
  from s g show ?thesis by blast
qed

section \<open>Properties of query validation\<close>


lemma contains_iff: "contains sub s \<longleftrightarrow> (\<exists>pre post. s = pre @ sub @ post)"
proof (induction s)
  case Nil
  then show ?case by auto
next
  case (Cons x xs)
  show ?case
  proof
    assume "contains sub (x # xs)"
    then consider "prefix sub (x # xs)" | "contains sub xs" by auto
    then show "\<exists>pre post. x # xs = pre @ sub @ post"
    proof cases
      case 1
      then obtain post where "x # xs = sub @ post" by (auto simp: prefix_def)
      then have "x # xs = [] @ sub @ post" by simp
      then show ?thesis by blast
    next
      case 2
      with Cons.IH obtain pre post where "xs = pre @ sub @ post" by auto
      then have "x # xs = (x # pre) @ sub @ post" by simp
      then show ?thesis by blast
    qed
  next
    assume "\<exists>pre post. x # xs = pre @ sub @ post"
    then obtain pre post where e: "x # xs = pre @ sub @ post" by auto
    show "contains sub (x # xs)"
    proof (cases pre)
      case Nil
      with e have "prefix sub (x # xs)" by (simp add: prefix_def)
      then show ?thesis by simp
    next
      case (Cons y pre')
      with e have "xs = pre' @ sub @ post" by simp
      with Cons.IH have "contains sub xs" by blast
      then show ?thesis by simp
    qed
  qed
qed

lemma any_keyword_in_iff:
  "any_keyword_in kws q \<longleftrightarrow> (\<exists>kw \<in> set kws. contains (codes kw) q)"
  by (induction kws) auto

lemma upper_char_nonempty: "upper_char c \<noteq> []"
  by (simp add: upper_char_def Let_def)

lemma upper_char_hd_space:
  "is_space c \<longleftrightarrow>
     (let n = hd (upper_char c) in
      (9 \<le> n \<and> n \<le> 13) \<or> (28 \<le> n \<and> n \<le> 32) \<or> n = 133 \<or> n = 160)"
  by (auto simp: is_space_def upper_char_def Let_def)

lemma upper_char_last_space:
  "is_space c \<longleftrightarrow>
     (let n = last (upper_char c) in
      (9 \<le> n \<and> n \<le> 13) \<or> (28 \<le> n \<and> n \<le> 32) \<or> n = 133 \<or> n = 160)"
  by (auto simp: is_space_def upper_char_def Let_def)

lemma upper_append: "upper (a @ b) = upper a @ upper b"
  by (simp add: upper_def)

lemma upper_hd: "s \<noteq> [] \<Longrightarrow> hd (upper s) = hd (upper_char (hd s))"
  by (cases s) (simp_all add: upper_def upper_char_nonempty)

lemma upper_last: "s \<noteq> [] \<Longrightarrow> last (upper s) = last (upper_char (last s))"
proof (induction s rule: rev_induct)
  case Nil
  then show ?case by simp
next
  case (snoc x xs)
  show ?case by (simp add: upper_def upper_char_nonempty)
qed

lemma upper_Nil_iff: "upper s = [] \<longleftrightarrow> s = []"
  by (cases s) (simp_all add: upper_def upper_char_nonempty)


lemma dropWhile_keeps:
  "ys \<noteq> [] \<Longrightarrow> \<not> P (hd ys) \<Longrightarrow> \<exists>xs'. dropWhile P (xs @ ys) = xs' @ ys"
proof (induction xs)
  case Nil
  then have "dropWhile P ys = ys" by (cases ys) auto
  then show ?case by simp
next
  case (Cons x xs)
  show ?case
  proof (cases "P x")
    case True
    with Cons show ?thesis by simp
  next
    case False
    then have "dropWhile P ((x # xs) @ ys) = (x # xs) @ ys" by simp
    then show ?thesis by blast
  qed
qed

lemma strip_keeps:
  assumes "mid \<noteq> []" "\<not> is_space (hd mid)" "\<not> is_space (last mid)"
  shows "\<exists>pre' post'. strip (pre @ mid @ post) = pre' @ mid @ post'"
proof -
  from assms have "mid @ post \<noteq> []" "\<not> is_space (hd (mid @ post))" by auto
  from dropWhile_keeps [where P = is_space and ys = "mid @ post" and xs = pre, OF this]
  obtain pre' where 1: "dropWhile is_space (pre @ mid @ post) = pre' @ mid @ post" by auto
  from assms have "rev mid @ rev pre' \<noteq> []" "\<not> is_space (hd (rev mid @ rev pre'))"
    by (auto simp: hd_rev)
  from dropWhile_keeps [where P = is_space and ys = "rev mid @ rev pre'" and xs = "rev post", OF this]
  obtain post' where
    2: "dropWhile is_space (rev post @ rev mid @ rev pre') = post' @ rev mid @ rev pre'"
    by auto
  have "strip (pre @ mid @ post) = pre' @ mid @ rev post'"
    by (simp add: strip_def 1 2)
  then show ?thesis by blast
qed

lemma keywords_trimmed:
  assumes "kw \<in> set dangerous_keywords"
  shows "codes kw \<noteq> []"
    and "\<not> (let n = hd (codes kw) in
             (9 \<le> n \<and> n \<le> 13) \<or> (28 \<le> n \<and> n \<le> 32) \<or> n = 133 \<or> n = 160)"
    and "\<not> (let n = last (codes kw) in
             (9 \<le> n \<and> n \<le> 13) \<or> (28 \<le> n \<and> n \<le> 32) \<or> n = 133 \<or> n = 160)"
  using assms by (auto simp: dangerous_keywords_def codes_def)

lemma keyword_rejected:
  assumes kw: "kw \<in> set dangerous_keywords" and m: "upper mid = codes kw"
    and q: "p_query qp = Some (pre @ mid @ post)"
  shows "\<not> mysql_validate_query m qp"
proof -
  note t = keywords_trimmed [OF kw]
  from m t(1) have "upper mid \<noteq> []" by simp
  then have ne: "mid \<noteq> []" by (simp add: upper_Nil_iff)
  from t(2) m upper_hd [OF ne] have h: "\<not> is_space (hd mid)"
    by (simp add: upper_char_hd_space)
  from t(3) m upper_last [OF ne] have l: "\<not> is_space (last mid)"
    by (simp add: upper_char_last_space)
  from strip_keeps [OF ne h l]
  obtain pre' post' where "strip (pre @ mid @ post) = pre' @ mid @ post'" by blast
  then have "upper (strip (pre @ mid @ post)) = upper pre' @ codes kw @ upper post'"
    by (simp add: upper_append m)
  then have "contains (codes kw) (upper (strip (pre @ mid @ post)))"
    by (auto simp: contains_iff)
  with kw have "any_keyword_in dangerous_keywords (upper (strip (pre @ mid @ post)))"
    by (auto simp: any_keyword_in_iff)
  then show ?thesis by (simp add: mysql_validate_query_def q get_or_def)
qed

lemma mysql_validate_query_iff:
  "mysql_validate_query m qp \<longleftrightarrow>
     prefix (codes ''SELECT'') (upper (strip (get_or [] (p_query qp))))
     \<and> \<not> (\<exists>kw \<in> set dangerous_keywords. \<exists>pre post.
            upper (strip (get_or [] (p_query qp))) = pre @ codes kw @ post)
     \<and> get_or 100 (p_limit qp) \<le> m"
  by (auto simp: mysql_validate_query_def Let_def any_keyword_in_iff contains_iff)

lemma rest_method:
  "upper (get_or ''GET'' (p_method qp)) \<notin> {codes ''GET'', codes ''HEAD'', codes ''OPTIONS''} \<Longrightarrow>
   \<not> rest_validate_query m qp"
  by (simp add: rest_validate_query_def Let_def)

lemma contains_infix: "contains mk (pre @ mk @ post)"
  unfolding contains_iff by blast

lemma contains_infix_slash: "contains mk (''/'' @ pre @ mk @ post)"
  unfolding contains_iff by (rule exI [of _ "''/'' @ pre"], rule exI [of _ post]) simp

lemma rest_path:
  assumes "p_endpoint qp = Some (pre @ ''..'' @ post) \<or> p_endpoint qp = Some (pre @ ''//'' @ post)"
  shows "\<not> rest_validate_query m qp"
  using assms
proof
  assume d: "p_endpoint qp = Some (pre @ ''..'' @ post)"
  have c: "contains ''..'' (pre @ ''..'' @ post)" by (rule contains_infix)
  show ?thesis
    by (simp add: rest_validate_query_def Let_def d get_or_def c contains_infix_slash
          del: append.simps)
next
  assume d: "p_endpoint qp = Some (pre @ ''//'' @ post)"
  have c: "contains ''//'' (pre @ ''//'' @ post)" by (rule contains_infix)
  show ?thesis
    by (simp add: rest_validate_query_def Let_def d get_or_def c contains_infix_slash
          del: append.simps)
qed

text \<open>
  Claim C6.  The SQL validator accepts \<open>SELECT * FROM t\<close> with limit 10 and rejects the
  three other requests of the specification.  It accepts a request exactly when the
  statement, trimmed by \<open>strip\<close> and put in upper case by \<open>upper\<close>, starts with
  \<open>SELECT\<close>, holds none of the deny-listed keywords and the limit is at most
  \<open>max_query_limit\<close>.  So it rejects every statement that does not start with
  \<open>SELECT\<close> then, every statement in which a deny-listed keyword occurs anywhere in any
  mix of cases (\<open>mid\<close> is the occurrence, a text whose upper case is the keyword), and
  every limit above \<open>max_query_limit\<close>.  The REST validator rejects every method
  whose upper case is not GET, HEAD or OPTIONS, and every endpoint that holds \<open>..\<close> or
  \<open>//\<close>.
\<close>

theorem validation_policy:
  "mysql_validate_query 1000
       \<lparr>p_query = Some ''SELECT * FROM t'', p_endpoint = None, p_method = None, p_limit = Some 10\<rparr>
   \<and> \<not> mysql_validate_query 1000
       \<lparr>p_query = Some ''DROP TABLE t'', p_endpoint = None, p_method = None, p_limit = Some 10\<rparr>
   \<and> \<not> mysql_validate_query 1000
       \<lparr>p_query = Some ''select 1; DROP TABLE t'', p_endpoint = None, p_method = None,
        p_limit = Some 10\<rparr>
   \<and> \<not> mysql_validate_query 1000
       \<lparr>p_query = Some ''SELECT 1'', p_endpoint = None, p_method = None, p_limit = Some 5000\<rparr>
   \<and> (\<forall>m qp. mysql_validate_query m qp \<longleftrightarrow>
         prefix (codes ''SELECT'') (upper (strip (get_or [] (p_query qp))))
         \<and> \<not> (\<exists>kw \<in> set dangerous_keywords. \<exists>pre post.
                upper (strip (get_or [] (p_query qp))) = pre @ codes kw @ post)
         \<and> get_or 100 (p_limit qp) \<le> m)
   \<and> (\<forall>m qp. \<not> prefix (codes ''SELECT'') (upper (strip (get_or [] (p_query qp)))) \<longrightarrow>
         \<not> mysql_validate_query m qp)
   \<and> (\<forall>m qp kw pre mid post.
         kw \<in> set dangerous_keywords \<and> upper mid = codes kw
         \<and> p_query qp = Some (pre @ mid @ post) \<longrightarrow>
         \<not> mysql_validate_query m qp)
   \<and> (\<forall>m qp. get_or 100 (p_limit qp) > m \<longrightarrow> \<not> mysql_validate_query m qp)
   \<and> (\<forall>m qp. upper (get_or ''GET'' (p_method qp))
                 \<notin> {codes ''GET'', codes ''HEAD'', codes ''OPTIONS''} \<longrightarrow>
         \<not> rest_validate_query m qp)
   \<and> (\<forall>m qp pre post.
         p_endpoint qp = Some (pre @ ''..'' @ post) \<or> p_endpoint qp = Some (pre @ ''//'' @ post) \<longrightarrow>
         \<not> rest_validate_query m qp)"
proof (intro conjI allI impI)
  show "mysql_validate_query 1000
       \<lparr>p_query = Some ''SELECT * FROM t'', p_endpoint = None, p_method = None, p_limit = Some 10\<rparr>"
    by code_simp
  show "\<not> mysql_validate_query 1000
       \<lparr>p_query = Some ''DROP TABLE t'', p_endpoint = None, p_method = None, p_limit = Some 10\<rparr>"
    by code_simp
  show "\<not> mysql_validate_query 1000
       \<lparr>p_query = Some ''select 1; DROP TABLE t'', p_endpoint = None, p_method = None,
        p_limit = Some 10\<rparr>"
    by code_simp
  show "\<not> mysql_validate_query 1000
       \<lparr>p_query = Some ''SELECT 1'', p_endpoint = None, p_method = None, p_limit = Some 5000\<rparr>"
    by code_simp
next
  fix m :: int and qp :: query_params
  show "mysql_validate_query m qp \<longleftrightarrow>
         prefix (codes ''SELECT'') (upper (strip (get_or [] (p_query qp))))
         \<and> \<not> (\<exists>kw \<in> set dangerous_keywords. \<exists>pre post.
                upper (strip (get_or [] (p_query qp))) = pre @ codes kw @ post)
         \<and> get_or 100 (p_limit qp) \<le> m"
    by (rule mysql_validate_query_iff)
next
  fix m :: int and qp :: query_params
  assume "\<not> prefix (codes ''SELECT'') (upper (strip (get_or [] (p_query qp))))"
  then show "\<not> mysql_validate_query m qp" by (simp add: mysql_validate_query_def Let_def)
next
  fix m :: int and qp :: query_params and kw pre mid post
  assume "kw \<in> set dangerous_keywords \<and> upper mid = codes kw
         \<and> p_query qp = Some (pre @ mid @ post)"
  then show "\<not> mysql_validate_query m qp" using keyword_rejected by blast
next
  fix m :: int and qp :: query_params
  assume "get_or 100 (p_limit qp) > m"
  then show "\<not> mysql_validate_query m qp" by (simp add: mysql_validate_query_def Let_def)
next
  fix m :: int and qp :: query_params
  assume "upper (get_or ''GET'' (p_method qp))
            \<notin> {codes ''GET'', codes ''HEAD'', codes ''OPTIONS''}"
  then show "\<not> rest_validate_query m qp" by (rule rest_method)
next
  fix m :: int and qp :: query_params and pre post
  assume "p_endpoint qp = Some (pre @ ''..'' @ post) \<or> p_endpoint qp = Some (pre @ ''//'' @ post)"
  then show "\<not> rest_validate_query m qp" by (rule rest_path)
qed

theorem validation_policy_witness:
  "\<not> mysql_validate_query 1000
       \<lparr>p_query = Some ''select id from t where note = 1 or Update'', p_endpoint = None,
        p_method = None, p_limit = Some 10\<rparr>
   \<and> \<not> mysql_validate_query 1000
       \<lparr>p_query = Some ''  show tables'', p_endpoint = None, p_method = None, p_limit = Some 10\<rparr>
   \<and> mysql_validate_query 1000
       \<lparr>p_query = Some ([CHR 0xA0] @ ''select 1'' @ [CHR 0x85]), p_endpoint = None,
        p_method = None, p_limit = Some 10\<rparr>
   \<and> \<not> mysql_validate_query 50
       \<lparr>p_query = Some ''SELECT 1'', p_endpoint = None, p_method = None, p_limit = None\<rparr>
   \<and> \<not> rest_validate_query 1000
       \<lparr>p_query = None, p_endpoint = Some ''/users'', p_method = Some ''post'', p_limit = Some 10\<rparr>
   \<and> \<not> rest_validate_query 1000
       \<lparr>p_query = None, p_endpoint = Some ''/users/../admin'', p_method = None, p_limit = Some 10\<rparr>
   \<and> \<not> rest_validate_query 1000
       \<lparr>p_query = None, p_endpoint = Some ''/users//1'', p_method = Some ''GET'', p_limit = Some 10\<rparr>"
proof -
  note P = validation_policy
  let ?q1 = "\<lparr>p_query = Some ''select id from t where note = 1 or Update'', p_endpoint = None,
        p_method = None, p_limit = Some 10\<rparr>"
  have k: "''UPDATE'' \<in> set dangerous_keywords" by (simp add: dangerous_keywords_def)
  have u: "upper ''Update'' = codes ''UPDATE''" by code_simp
  have q: "p_query ?q1 = Some (''select id from t where note = 1 or '' @ ''Update'' @ [])" by simp
  from P k u q have 1: "\<not> mysql_validate_query 1000 ?q1" by blast
  let ?q2 = "\<lparr>p_query = Some ''  show tables'', p_endpoint = None, p_method = None, p_limit = Some 10\<rparr>"
  have "\<not> prefix (codes ''SELECT'') (upper (strip (get_or [] (p_query ?q2))))" by code_simp
  with P have 2: "\<not> mysql_validate_query 1000 ?q2" by blast
  let ?q7 = "\<lparr>p_query = Some ([CHR 0xA0] @ ''select 1'' @ [CHR 0x85]), p_endpoint = None,
        p_method = None, p_limit = Some 10\<rparr>"
  have s: "upper (strip (get_or [] (p_query ?q7))) = codes ''SELECT 1''" by code_simp
  have "prefix (codes ''SELECT'') (codes ''SELECT 1'')" by code_simp
  moreover have "\<not> (\<exists>kw \<in> set dangerous_keywords. \<exists>pre post.
      codes ''SELECT 1'' = pre @ codes kw @ post)"
    unfolding contains_iff [symmetric] any_keyword_in_iff [symmetric] by code_simp
  moreover have "get_or 100 (p_limit ?q7) \<le> 1000" by (simp add: get_or_def)
  ultimately have 7: "mysql_validate_query 1000 ?q7"
    using P s by (metis (no_types, lifting))
  let ?q3 = "\<lparr>p_query = Some ''SELECT 1'', p_endpoint = None, p_method = None, p_limit = None\<rparr>"
  have "get_or 100 (p_limit ?q3) > 50" by (simp add: get_or_def)
  with P have 3: "\<not> mysql_validate_query 50 ?q3" by blast
  let ?q4 = "\<lparr>p_query = None, p_endpoint = Some ''/users'', p_method = Some ''post'', p_limit = Some 10\<rparr>"
  have "upper (get_or ''GET'' (p_method ?q4))
          \<notin> {codes ''GET'', codes ''HEAD'', codes ''OPTIONS''}" by code_simp
  with P have 4: "\<not> rest_validate_query 1000 ?q4" by blast
  let ?q5 = "\<lparr>p_query = None, p_endpoint = Some ''/users/../admin'', p_method = None, p_limit = Some 10\<rparr>"
  have "p_endpoint ?q5 = Some (''/users/'' @ ''..'' @ ''/admin'')" by simp
  with P have 5: "\<not> rest_validate_query 1000 ?q5" by blast
  let ?q6 = "\<lparr>p_query = None, p_endpoint = Some ''/users//1'', p_method = Some ''GET'', p_limit = Some 10\<rparr>"
  have "p_endpoint ?q6 = Some (''/users'' @ ''//'' @ ''1'')" by simp
  with P have 6: "\<not> rest_validate_query 1000 ?q6" by blast
  from 1 2 3 4 5 6 7 show ?thesis by blast
qed

section \<open>Properties of data sources and of the query tool\<close>


text \<open>
  Claim C2, at a REST source configured with an API key, an auth token and a password:
  \<open>get_schema_metadata\<close> drops the entry whose key holds \<open>password\<close> and returns the
  API key and the auth token as they are.
\<close>

theorem metadata_exposes_api_key:
  "get_schema_metadata
     \<lparr>ds_name = ''api'',
      config = [(''base_url'', PStr ''https://api.example.com''), (''auth_type'', PStr ''api_key''),
                (''api_key'', PStr ''s3cr3t''), (''auth_token'', PStr ''t0k3n''),
                (''Password'', PStr ''pw'')],
      connected = False, schema_cache_ttl = 3600, query_cache_ttl = 300, max_query_limit = 1000,
      validate_query = rest_validate_query 1000, query = (\<lambda>qp. Inr (PList [])),
      connect = True, ds_get_schema = Inr (PDict [])\<rparr> 0
   = PDict [(''data_source'', PStr ''api''), (''generated_at'', PStamp 0),
            (''cache_ttl'', PInt 3600), (''max_query_limit'', PInt 1000),
            (''config'', PDict [(''base_url'', PStr ''https://api.example.com''),
                                (''auth_type'', PStr ''api_key''),
                                (''api_key'', PStr ''s3cr3t''), (''auth_token'', PStr ''t0k3n'')])]"
  by code_simp

text \<open>
  Claim C1, amended.  The query tool of a source calls \<open>validate_query\<close> first and calls
  \<open>query\<close> only on the request that \<open>validate_query\<close> accepted; when the request is
  rejected the tool makes no other call, returns the rejection and leaves the cache
  manager as it was.  \<open>MCPDataSource.health_check\<close> connects when the source is not
  connected and then sends its fixed probe to \<open>query\<close>, with no validation.
\<close>

theorem query_tool_validates_first:
  "validated_first (validate_query ds) [] (fst (query_data_source lib name ds cm now q limit))
   \<and> (\<not> validate_query ds
          \<lparr>p_query = Some q, p_endpoint = None, p_method = None, p_limit = Some limit\<rparr> \<longrightarrow>
        query_data_source lib name ds cm now q limit =
          ([EvValidate \<lparr>p_query = Some q, p_endpoint = None, p_method = None, p_limit = Some limit\<rparr>],
           Some (json_reply lib (PDict [(''error'', PStr ''Invalid query parameters'')]), cm)))
   \<and> fst (health_check ds now) = (if connected ds then [] else [EvConnect]) @ [EvQuery probe]"
  by (auto simp: query_data_source_def Let_def health_check_def
           split: sum.splits option.splits prod.splits)


theorem query_tool_validates_first_witness:
  "query_data_source
     \<lparr>dumps_text = (\<lambda>v. ''{}''), hash_text = (\<lambda>s. ''0''),
       int_text = (\<lambda>i. ''0''), exc_text = (\<lambda>e. ''error'')\<rparr>
     ''db''
     \<lparr>ds_name = ''db'', config = [], connected = True, schema_cache_ttl = 3600,
      query_cache_ttl = 300, max_query_limit = 1000,
      validate_query = mysql_validate_query 1000, query = (\<lambda>qp. Inr (PList [])),
      connect = True, ds_get_schema = Inr (PDict [])\<rparr>
     \<lparr>query_cache = new_cache 1000 300, query_hits = 0, query_misses = 0\<rparr>
     0 ''DROP TABLE t'' 10
   = ([EvValidate \<lparr>p_query = Some ''DROP TABLE t'', p_endpoint = None, p_method = None,
                     p_limit = Some 10\<rparr>],
      Some (json_reply
              \<lparr>dumps_text = (\<lambda>v. ''{}''), hash_text = (\<lambda>s. ''0''),
       int_text = (\<lambda>i. ''0''), exc_text = (\<lambda>e. ''error'')\<rparr>
              (PDict [(''error'', PStr ''Invalid query parameters'')]),
            \<lparr>query_cache = new_cache 1000 300, query_hits = 0, query_misses = 0\<rparr>))"
proof -
  let ?lib = "\<lparr>dumps_text = (\<lambda>v. ''{}''), hash_text = (\<lambda>s. ''0''),
       int_text = (\<lambda>i. ''0''), exc_text = (\<lambda>e. ''error'')\<rparr>"
  let ?cm = "\<lparr>query_cache = new_cache 1000 300, query_hits = 0, query_misses = 0\<rparr>"
  let ?ds = "\<lparr>ds_name = ''db'', config = [], connected = True, schema_cache_ttl = 3600,
      query_cache_ttl = 300, max_query_limit = 1000,
      validate_query = mysql_validate_query 1000, query = (\<lambda>qp. Inr (PList [])),
      connect = True, ds_get_schema = Inr (PDict [])\<rparr>"
  have "\<not> mysql_validate_query 1000
       \<lparr>p_query = Some ''DROP TABLE t'', p_endpoint = None, p_method = None, p_limit = Some 10\<rparr>"
    by code_simp
  then have "\<not> validate_query ?ds
       \<lparr>p_query = Some ''DROP TABLE t'', p_endpoint = None, p_method = None, p_limit = Some 10\<rparr>"
    by simp
  with query_tool_validates_first [of ?ds ?lib "''db''" ?cm 0 "''DROP TABLE t''" 10]
  show ?thesis by blast
qed

text \<open>
  Claim C1 as stated fails: the base \<open>health_check\<close> of a connected source calls
  \<open>query\<close> and never calls \<open>validate_query\<close>.
\<close>

theorem health_check_queries_unvalidated:
  "fst (health_check
     \<lparr>ds_name = ''db'', config = [], connected = True, schema_cache_ttl = 3600,
      query_cache_ttl = 300, max_query_limit = 1000,
      validate_query = mysql_validate_query 1000, query = (\<lambda>qp. Inr (PList [])),
      connect = True, ds_get_schema = Inr (PDict [])\<rparr> 0) = [EvQuery probe]
   \<and> \<not> validated_first (mysql_validate_query 1000) []
       (fst (health_check
     \<lparr>ds_name = ''db'', config = [], connected = True, schema_cache_ttl = 3600,
      query_cache_ttl = 300, max_query_limit = 1000,
      validate_query = mysql_validate_query 1000, query = (\<lambda>qp. Inr (PList [])),
      connect = True, ds_get_schema = Inr (PDict [])\<rparr> 0))"
  by (simp add: health_check_def)

section \<open>Properties of the schema store\<close>





lemma write_file_simps [simp]:
  "files (write_file fs p f) = (files fs)(p \<mapsto> f)"
  "readable (write_file fs p f) = readable fs"
  "writable (write_file fs p f) = writable fs"
  by (simp_all add: write_file_def)








section \<open>Properties of the schema refresh\<close>


lemma save_schema_env:
  "readable (fst (save_schema lib dir fs now n S)) = readable fs"
  "writable (fst (save_schema lib dir fs now n S)) = writable fs"
  by (simp_all add: save_schema_def Let_def split: sum.splits)




lemma refresh_all_Cons:
  "\<exists>entry fs1.
     refresh_all lib dir clock ((n, ds) # rest) fs acc
       = refresh_all lib dir clock rest fs1 (AList.update n entry acc)
   \<and> entry = (case ds_get_schema ds of
                 Inl e \<Rightarrow> status_error e
               | Inr schema \<Rightarrow>
                   (case snd (save_schema lib dir fs (clock n) n schema) of
                      Inl e \<Rightarrow> status_error e
                    | Inr u \<Rightarrow> status_success))
   \<and> fs1 = (case ds_get_schema ds of
               Inl e \<Rightarrow> fs
             | Inr schema \<Rightarrow> fst (save_schema lib dir fs (clock n) n schema))"
proof (cases "ds_get_schema ds")
  case (Inl e)
  then show ?thesis by simp
next
  case (Inr schema)
  obtain fs1 out where sv: "save_schema lib dir fs (clock n) n schema = (fs1, out)"
    by (cases "save_schema lib dir fs (clock n) n schema")
  with Inr show ?thesis by (cases out) auto
qed

lemma refresh_all_env:
  "refresh_all lib dir clock srcs fs acc = (fs', results) \<Longrightarrow>
   readable fs' = readable fs \<and> writable fs' = writable fs"
proof (induction srcs arbitrary: fs acc)
  case Nil
  then show ?case by simp
next
  case (Cons p srcs)
  obtain n ds where p: "p = (n, ds)" by (cases p)
  from refresh_all_Cons [of lib dir clock n ds srcs fs acc] obtain entry fs1 where
    step: "refresh_all lib dir clock ((n, ds) # srcs) fs acc
       = refresh_all lib dir clock srcs fs1 (AList.update n entry acc)"
    and fs1: "fs1 = (case ds_get_schema ds of
               Inl e \<Rightarrow> fs
             | Inr schema \<Rightarrow> fst (save_schema lib dir fs (clock n) n schema))"
    by blast
  from fs1 have "readable fs1 = readable fs \<and> writable fs1 = writable fs"
    by (simp add: save_schema_env split: sum.splits)
  with Cons.IH [of fs1 "AList.update n entry acc"] Cons.prems step p show ?case by simp
qed






lemma relative_names_paths:
  assumes "distinct ns" and "\<forall>n \<in> set ns. \<not> prefix ''/'' n"
  shows "distinct (map (get_schema_file_path dir) ns)
       \<and> distinct (map (get_metadata_file_path dir) ns)"
proof -
  have rel: "\<not> prefix ''/'' (n @ sfx)" if "\<not> prefix ''/'' n" "\<not> prefix ''/'' sfx" for n sfx
    using that by (cases n) auto
  have "inj_on (get_schema_file_path dir) (set ns)"
    using assms(2) by (auto simp: inj_on_def get_schema_file_path_def path_join_def rel)
  moreover have "inj_on (get_metadata_file_path dir) (set ns)"
    using assms(2) by (auto simp: inj_on_def get_metadata_file_path_def path_join_def rel)
  ultimately show ?thesis using assms(1) by (simp add: distinct_map)
qed

lemma relative_paths_distinct:
  assumes "distinct (map fst srcs)" and "\<forall>n \<in> set (map fst srcs). \<not> prefix ''/'' n"
  shows "distinct (map (\<lambda>p. get_schema_file_path dir (fst p)) srcs)
       \<and> distinct (map (\<lambda>p. get_metadata_file_path dir (fst p)) srcs)"
  using relative_names_paths [OF assms, of dir] by (simp add: comp_def)



end
